theory Spec2Isabelle
  imports Main
begin

section \<open>The stats synchronizer of src/index.js\<close>

text \<open>
  The background job of \<^verbatim>\<open>src/index.js\<close> (\<^verbatim>\<open>fetchYouTubeStats\<close>, lines 45-62, and
  \<^verbatim>\<open>updateAllStatsInBackground\<close>, lines 65-83) is an \<^verbatim>\<open>async\<close> function that awaits
  four collaborators in sequence: the extractor \<^verbatim>\<open>youtubedl\<close>, the cache client
  \<^verbatim>\<open>redis\<close>, the ORM model \<^verbatim>\<open>Song\<close> and the timer behind \<^verbatim>\<open>sleep\<close>. The embedding
  threads an explicit world (clock, Song table, cache contents, trace of effects) through
  the awaits. What a collaborator answers is not decided by the program; it is read from
  an environment.
\<close>

subsection \<open>Promises of the collaborators\<close>

text \<open>
  An awaited promise is fulfilled after some milliseconds with a value, is rejected after
  some milliseconds, or never settles. An \<^verbatim>\<open>await\<close> of the last kind never returns.
\<close>

datatype 'a promise = Resolves nat 'a | Rejects nat | Pending

text \<open>
  The JSON document printed by the extractor, restricted to the two members the program
  reads. \<open>None\<close> stands for a member that is missing or \<^verbatim>\<open>null\<close> (the two cases the
  optional chaining \<^verbatim>\<open>?.\<close> treats alike); the extractor prints counts as integers.
\<close>

record metadata =
  view_count :: "int option"
  like_count :: "int option"

text \<open>The object \<^verbatim>\<open>{ views, likes }\<close> returned by \<^verbatim>\<open>fetchYouTubeStats\<close>.\<close>

record stats =
  views :: string
  likes :: string

subsection \<open>The Song table (src/models/Song.js)\<close>

text \<open>
  The columns \<^verbatim>\<open>views\<close> and \<^verbatim>\<open>likes\<close> are declared \<^verbatim>\<open>INTEGER\<close> with default 0, while
  the synchronizer hands strings to \<^verbatim>\<open>Song.update\<close>. A cell therefore holds the value as
  the program passed it to the ORM: a number or a text. \<^verbatim>\<open>createdAt\<close> and \<^verbatim>\<open>updatedAt\<close>
  are the timestamp columns that \<^verbatim>\<open>sequelize.define\<close> adds by default (milliseconds).
\<close>

datatype cell = IntVal int | TextVal string

record Song =
  song_id :: int
  Artist :: string
  title :: string
  cover :: string
  youtubeid :: string
  song_views :: cell
  song_likes :: cell
  playlistId :: int
  createdAt :: int
  updatedAt :: int

subsection \<open>World and environment\<close>

datatype event =
    CallExtractor string
  | RedisSet string string nat
  | SongFindAll int
  | SongUpdate string string string
  | SleepFor nat
  | ConsoleErrorFetch string
  | ConsoleLogUpdated int string
  | ConsoleErrorTick

text \<open>
  \<open>now\<close> is what \<^verbatim>\<open>Date.now()\<close> returns, \<open>songs_table\<close> the rows of the Song table in
  the order the store returns them, \<open>redis_store\<close> the keys of the cache with their value
  and expiry in seconds, \<open>trace\<close> every call to a collaborator and every console line, in
  the order issued.
\<close>

record world =
  now :: int
  songs_table :: "Song list"
  redis_store :: "string \<Rightarrow> (string \<times> nat) option"
  trace :: "event list"

text \<open>
  The environment answers each call, given its arguments and the time of the call:
  the extractor by URL, \<^verbatim>\<open>redis.set\<close> by key and value, \<^verbatim>\<open>Song.update\<close> by the
  identifier of its \<^verbatim>\<open>where\<close> clause, \<^verbatim>\<open>Song.findAll\<close> by its cutoff. \<open>timer_lag\<close> is how
  late the timer of \<^verbatim>\<open>setTimeout\<close> fires beyond the requested delay. \<open>unsafe_text\<close> is
  the text JavaScript prints for a count that is not a safe integer (see \<open>toString\<close>
  below); the embedding does not compute it.
\<close>

record env =
  youtubedl :: "string \<Rightarrow> int \<Rightarrow> metadata promise"
  redis_set :: "string \<Rightarrow> string \<Rightarrow> int \<Rightarrow> unit promise"
  Song_findAll_io :: "int \<Rightarrow> int \<Rightarrow> unit promise"
  Song_update_io :: "string \<Rightarrow> int \<Rightarrow> unit promise"
  timer_lag :: "int \<Rightarrow> nat"
  unsafe_text :: "int \<Rightarrow> string"

text \<open>
  How a \<^verbatim>\<open>try\<close> block ended: it ran to its end, or a statement threw and control went to
  the \<^verbatim>\<open>catch\<close> handler.
\<close>

datatype completion = Normal | Threw

definition emit :: "event \<Rightarrow> world \<Rightarrow> world" where
  "emit ev st = st\<lparr>trace := trace st @ [ev]\<rparr>"

definition elapse :: "nat \<Rightarrow> world \<Rightarrow> world" where
  "elapse d st = st\<lparr>now := now st + int d\<rparr>"

subsection \<open>Number.prototype.toString and the coercion of line 55-56\<close>

definition digit_char :: "nat \<Rightarrow> char" where
  "digit_char d = ''0123456789'' ! d"

fun digits :: "nat \<Rightarrow> string" where
  "digits n = (if n < 10 then [digit_char n] else digits (n div 10) @ [digit_char (n mod 10)])"

declare digits.simps [simp del]

text \<open>The decimal text of an integer: a minus sign for a negative one, then every digit.\<close>

definition decimal :: "int \<Rightarrow> string" where
  "decimal n = (if n < 0 then CHR ''-'' # digits (nat (- n)) else digits (nat n))"

text \<open>
  \<^verbatim>\<open>Number.MAX_SAFE_INTEGER\<close>, which is \<open>2^53 - 1\<close>, and \<^verbatim>\<open>Number.isSafeInteger\<close> on an
  integer. \<^verbatim>\<open>JSON.parse\<close> turns the integer the extractor printed into an IEEE double:
  a safe integer is kept exactly, a larger one is rounded to the nearest double.
\<close>

definition MAX_SAFE_INTEGER :: int where
  "MAX_SAFE_INTEGER = 9007199254740991"

definition isSafeInteger :: "int \<Rightarrow> bool" where
  "isSafeInteger n = (- MAX_SAFE_INTEGER \<le> n \<and> n \<le> MAX_SAFE_INTEGER)"

text \<open>
  \<^verbatim>\<open>toString()\<close> of the number parsed from the printed integer \<open>n\<close>. For a safe integer
  JavaScript prints the decimal text. Beyond the safe range the number is a rounded
  double, printed in shortest round-trip form and in exponent notation from \<open>10^21\<close>
  (\<^verbatim>\<open>'1e+21'\<close>); that text is taken from the environment.
\<close>

definition toString :: "env \<Rightarrow> int \<Rightarrow> string" where
  "toString e n = (if isSafeInteger n then decimal n else unsafe_text e n)"

text \<open>\<^verbatim>\<open>x?.toString()\<close>: \<^verbatim>\<open>undefined\<close> when \<^verbatim>\<open>x\<close> is \<^verbatim>\<open>undefined\<close> or \<^verbatim>\<open>null\<close>.\<close>

definition opt_toString :: "env \<Rightarrow> int option \<Rightarrow> string option" where
  "opt_toString e x = (case x of None \<Rightarrow> None | Some n \<Rightarrow> Some (toString e n))"

text \<open>\<^verbatim>\<open>s || d\<close> on a string or \<^verbatim>\<open>undefined\<close>: the empty string and \<^verbatim>\<open>undefined\<close> are falsy.\<close>

definition or_else :: "string option \<Rightarrow> string \<Rightarrow> string" where
  "or_else s d = (case s of None \<Rightarrow> d | Some t \<Rightarrow> (if t = [] then d else t))"

subsection \<open>fetchYouTubeStats (src/index.js, lines 45-62)\<close>

definition watch_url :: "string \<Rightarrow> string" where
  "watch_url yid = ''https://www.youtube.com/watch?v='' @ yid"

text \<open>
  \<open>None\<close>: the await of the extractor never returns. Otherwise the returned object and
  the world after the call. The \<^verbatim>\<open>catch\<close> handler logs and returns the \<^verbatim>\<open>'N/A'\<close> pair.
\<close>

definition fetchYouTubeStats :: "env \<Rightarrow> string \<Rightarrow> world \<Rightarrow> (stats \<times> world) option" where
  "fetchYouTubeStats e yid st =
     (let st0 = emit (CallExtractor (watch_url yid)) st in
      case youtubedl e (watch_url yid) (now st) of
        Pending \<Rightarrow> None
      | Resolves d data \<Rightarrow>
          Some (\<lparr>views = or_else (opt_toString e (view_count data)) ''N/A'',
                 likes = or_else (opt_toString e (like_count data)) ''N/A''\<rparr>,
                elapse d st0)
      | Rejects d \<Rightarrow>
          Some (\<lparr>views = ''N/A'', likes = ''N/A''\<rparr>,
                emit (ConsoleErrorFetch yid) (elapse d st0)))"

subsection \<open>The collaborators' operations on the world\<close>

text \<open>
  \<^verbatim>\<open>JSON.stringify\<close> of an object with the two string members, in insertion order.
  Quotes and backslashes are escaped; the strings built by \<open>fetchYouTubeStats\<close> hold no
  control characters.
\<close>

definition json_escape :: "string \<Rightarrow> string" where
  "json_escape s =
     concat (map (\<lambda>c. if c = CHR 0x22 then [CHR 0x5C, CHR 0x22]
                       else if c = CHR 0x5C then [CHR 0x5C, CHR 0x5C] else [c]) s)"

definition json_string :: "string \<Rightarrow> string" where
  "json_string s = [CHR 0x22] @ json_escape s @ [CHR 0x22]"

definition JSON_stringify :: "stats \<Rightarrow> string" where
  "JSON_stringify s =
     ''{'' @ json_string ''views'' @ '':'' @ json_string (views s) @ '','' @
     json_string ''likes'' @ '':'' @ json_string (likes s) @ ''}''"

text \<open>
  \<^verbatim>\<open>await redis.set(key, value, 'EX', ex)\<close>: when the command succeeds the key holds the
  value with an expiry of \<open>ex\<close> seconds; when it fails the store is as before and the
  await throws.
\<close>

definition redis_set_EX :: "env \<Rightarrow> string \<Rightarrow> string \<Rightarrow> nat \<Rightarrow> world \<Rightarrow> (completion \<times> world) option" where
  "redis_set_EX e key val ex st =
     (let st0 = emit (RedisSet key val ex) st in
      case redis_set e key val (now st) of
        Pending \<Rightarrow> None
      | Rejects d \<Rightarrow> Some (Threw, elapse d st0)
      | Resolves d u \<Rightarrow>
          Some (Normal, elapse d (st0\<lparr>redis_store := (redis_store st0)(key \<mapsto> (val, ex))\<rparr>)))"

text \<open>
  The rows \<^verbatim>\<open>UPDATE Songs SET views, likes, updatedAt WHERE youtubeid = yid\<close> leaves:
  Sequelize adds the \<^verbatim>\<open>updatedAt\<close> assignment to every \<^verbatim>\<open>Model.update\<close> of a model
  with timestamps.
\<close>

definition update_rows :: "string \<Rightarrow> string \<Rightarrow> string \<Rightarrow> int \<Rightarrow> Song list \<Rightarrow> Song list" where
  "update_rows v l yid t rows =
     map (\<lambda>r. if youtubeid r = yid
              then r\<lparr>song_views := TextVal v, song_likes := TextVal l, updatedAt := t\<rparr>
              else r) rows"

text \<open>\<^verbatim>\<open>await Song.update({ views: v, likes: l }, { where: { youtubeid: yid } })\<close>.\<close>

definition Song_update :: "env \<Rightarrow> string \<Rightarrow> string \<Rightarrow> string \<Rightarrow> world \<Rightarrow> (completion \<times> world) option" where
  "Song_update e v l yid st =
     (let st0 = emit (SongUpdate v l yid) st in
      case Song_update_io e yid (now st) of
        Pending \<Rightarrow> None
      | Rejects d \<Rightarrow> Some (Threw, elapse d st0)
      | Resolves d u \<Rightarrow>
          Some (Normal,
                elapse d (st0\<lparr>songs_table := update_rows v l yid (now st0) (songs_table st0)\<rparr>)))"

text \<open>
  \<^verbatim>\<open>await Song.findAll({ where: { updatedAt: { [Op.lt]: cutoff } } })\<close>: the rows whose
  \<^verbatim>\<open>updatedAt\<close> is less than the cutoff, in table order, as a snapshot.
\<close>

definition Song_findAll_lt :: "env \<Rightarrow> int \<Rightarrow> world \<Rightarrow> ((completion \<times> Song list) \<times> world) option" where
  "Song_findAll_lt e cutoff st =
     (let st0 = emit (SongFindAll cutoff) st in
      case Song_findAll_io e cutoff (now st) of
        Pending \<Rightarrow> None
      | Rejects d \<Rightarrow> Some ((Threw, []), elapse d st0)
      | Resolves d u \<Rightarrow>
          Some ((Normal, filter (\<lambda>r. updatedAt r < cutoff) (songs_table st0)), elapse d st0))"

subsection \<open>sleep (lines 17-19) and COOLDOWN_MS (line 13)\<close>

definition COOLDOWN_MS :: nat where
  "COOLDOWN_MS = 30 * 1000"

text \<open>The timer fires no earlier than \<open>ms\<close> milliseconds after the call.\<close>

definition sleep :: "env \<Rightarrow> nat \<Rightarrow> world \<Rightarrow> world" where
  "sleep e ms st = elapse (ms + timer_lag e (now st)) (emit (SleepFor ms) st)"

subsection \<open>updateAllStatsInBackground (lines 65-83)\<close>

text \<open>
  One iteration of the \<^verbatim>\<open>for\<close> loop (lines 74-78). \<open>None\<close>: an await never returns;
  \<open>Threw\<close>: an await threw, which leaves the loop for the handler of line 80.
\<close>

definition processSong :: "env \<Rightarrow> Song \<Rightarrow> world \<Rightarrow> (completion \<times> world) option" where
  "processSong e song st =
     (case fetchYouTubeStats e (youtubeid song) st of
        None \<Rightarrow> None
      | Some (stats, st1) \<Rightarrow>
          (case redis_set_EX e (''ytstats:'' @ youtubeid song) (JSON_stringify stats) 60 st1 of
             None \<Rightarrow> None
           | Some (Threw, st2) \<Rightarrow> Some (Threw, st2)
           | Some (Normal, st2) \<Rightarrow>
               (case Song_update e (views stats) (likes stats) (youtubeid song) st2 of
                  None \<Rightarrow> None
                | Some (Threw, st3) \<Rightarrow> Some (Threw, st3)
                | Some (Normal, st3) \<Rightarrow>
                    Some (Normal,
                          sleep e COOLDOWN_MS
                            (emit (ConsoleLogUpdated (now st3) (youtubeid song)) st3)))))"

text \<open>The loop \<^verbatim>\<open>for (const song of songs)\<close> over the snapshot returned by the query.\<close>

fun forSongs :: "env \<Rightarrow> Song list \<Rightarrow> world \<Rightarrow> (completion \<times> world) option" where
  "forSongs e [] st = Some (Normal, st)"
| "forSongs e (song # songs) st =
     (case processSong e song st of
        None \<Rightarrow> None
      | Some (Threw, st') \<Rightarrow> Some (Threw, st')
      | Some (Normal, st') \<Rightarrow> forSongs e songs st')"

text \<open>
  The identifier \<^verbatim>\<open>Op\<close> of line 70 is free in the function and resolved in the module
  scope. \<open>Some Sequelize_Op\<close>: the scope binds it to the operator table of Sequelize;
  \<open>None\<close>: the scope has no such binding, and evaluating \<^verbatim>\<open>Op.lt\<close> throws a
  \<^verbatim>\<open>ReferenceError\<close> before \<^verbatim>\<open>Song.findAll\<close> is called.
\<close>

datatype op_table = Sequelize_Op

text \<open>The \<^verbatim>\<open>try\<close> block (lines 67-79).\<close>

definition try_block :: "op_table option \<Rightarrow> env \<Rightarrow> world \<Rightarrow> (completion \<times> world) option" where
  "try_block Op e st =
     (let cutoff = now st - 10 * 60 * 1000 in
      case Op of
        None \<Rightarrow> Some (Threw, st)
      | Some ops \<Rightarrow>
          (case Song_findAll_lt e cutoff st of
             None \<Rightarrow> None
           | Some ((Threw, songs), st1) \<Rightarrow> Some (Threw, st1)
           | Some ((Normal, songs), st1) \<Rightarrow> forSongs e songs st1))"

text \<open>
  The handler of lines 80-82 around a block: it logs whatever the block threw and
  swallows it; a block that ran to its end is left alone.
\<close>

definition catch_and_log :: "(completion \<times> world) option \<Rightarrow> (completion \<times> world) option" where
  "catch_and_log r =
     (case r of
        None \<Rightarrow> None
      | Some (Threw, st') \<Rightarrow> Some (Threw, emit ConsoleErrorTick st')
      | Some (Normal, st') \<Rightarrow> Some (Normal, st'))"

text \<open>
  The whole function: the \<^verbatim>\<open>try\<close> block under its handler, so the promise of the
  function is never rejected. The completion says which way it ended.
\<close>

definition updateAllStatsInBackground :: "op_table option \<Rightarrow> env \<Rightarrow> world \<Rightarrow> (completion \<times> world) option" where
  "updateAllStatsInBackground Op e st = catch_and_log (try_block Op e st)"

text \<open>
  The module scope of \<^verbatim>\<open>src/index.js\<close>: line 5 takes \<^verbatim>\<open>Sequelize\<close> and \<^verbatim>\<open>DataTypes\<close>
  from the package, line 11 takes \<^verbatim>\<open>Playlist\<close>, \<^verbatim>\<open>Song\<close>, \<^verbatim>\<open>User\<close> and \<^verbatim>\<open>sequelize\<close>
  from the models; no declaration of the file binds \<^verbatim>\<open>Op\<close>.
\<close>

definition index_js_Op :: "op_table option" where
  "index_js_Op = None"

subsection \<open>Observations on a trace\<close>

text \<open>
  The number of extractor invocations in a trace is the number of songs whose iteration
  started; the number of cooldowns is the number of \<^verbatim>\<open>sleep(COOLDOWN_MS)\<close> calls.
  \<open>during st st'\<close> is what a run from \<open>st\<close> to \<open>st'\<close> appended to the trace.
\<close>

definition is_call :: "event \<Rightarrow> bool" where
  "is_call ev = (case ev of CallExtractor u \<Rightarrow> True | _ \<Rightarrow> False)"

definition calls :: "event list \<Rightarrow> nat" where
  "calls tr = length (filter is_call tr)"

definition sleeps :: "event list \<Rightarrow> nat" where
  "sleeps tr = length (filter (\<lambda>ev. ev = SleepFor COOLDOWN_MS) tr)"

definition during :: "world \<Rightarrow> world \<Rightarrow> event list" where
  "during st st' = drop (length (trace st)) (trace st')"

text \<open>The columns of a row that the synchronizer never assigns.\<close>

definition frame_row :: "Song \<Rightarrow> Song \<Rightarrow> bool" where
  "frame_row r r' =
     (song_id r' = song_id r \<and> Artist r' = Artist r \<and> title r' = title r \<and>
      cover r' = cover r \<and> youtubeid r' = youtubeid r \<and> playlistId r' = playlistId r \<and>
      createdAt r' = createdAt r)"

subsection \<open>A scenario: two stale songs and a fresh one\<close>

definition song_abc :: Song where
  "song_abc = \<lparr>song_id = 1, Artist = ''A'', title = ''T1'', cover = ''c1.png'',
     youtubeid = ''abc123'', song_views = IntVal 100, song_likes = IntVal 10,
     playlistId = 1, createdAt = 0, updatedAt = 340000\<rparr>"

definition song_xyz :: Song where
  "song_xyz = \<lparr>song_id = 2, Artist = ''B'', title = ''T2'', cover = ''c2.png'',
     youtubeid = ''xyz789'', song_views = IntVal 7, song_likes = IntVal 0,
     playlistId = 1, createdAt = 0, updatedAt = 100000\<rparr>"

definition song_new :: Song where
  "song_new = \<lparr>song_id = 3, Artist = ''C'', title = ''T3'', cover = ''c3.png'',
     youtubeid = ''new456'', song_views = IntVal 0, song_likes = IntVal 0,
     playlistId = 2, createdAt = 940000, updatedAt = 940000\<rparr>"

text \<open>At time 1000000 the cutoff is 400000: the first two rows are stale, the third is not.\<close>

definition world0 :: world where
  "world0 = \<lparr>now = 1000000, songs_table = [song_abc, song_xyz, song_new],
     redis_store = Map.empty, trace = []\<rparr>"

text \<open>
  The extractor answers \<^verbatim>\<open>{view_count: 150, like_count: 12}\<close> for \<^verbatim>\<open>abc123\<close> and
  fails for every other identifier; cache and store succeed. The only count beyond the
  safe range that the scenarios use is \<open>10^21\<close>, which JavaScript prints as
  \<^verbatim>\<open>'1e+21'\<close>.
\<close>

definition env_ok :: env where
  "env_ok = \<lparr>youtubedl = (\<lambda>url t. if url = watch_url ''abc123''
                                 then Resolves 1500 \<lparr>view_count = Some 150, like_count = Some 12\<rparr>
                                 else Rejects 800),
     redis_set = (\<lambda>k v t. Resolves 2 ()),
     Song_findAll_io = (\<lambda>c t. Resolves 5 ()),
     Song_update_io = (\<lambda>yid t. Resolves 7 ()),
     timer_lag = (\<lambda>t. 0),
     unsafe_text = (\<lambda>n. ''1e+21'')\<rparr>"

text \<open>The same, with an extractor that never answers.\<close>

definition env_hang :: env where
  "env_hang = env_ok\<lparr>youtubedl := (\<lambda>url t. Pending)\<rparr>"

text \<open>The same, with a store that rejects every update.\<close>

definition env_dbfail :: env where
  "env_dbfail = env_ok\<lparr>Song_update_io := (\<lambda>yid t. Rejects 7)\<rparr>"

text \<open>An extractor that reports zero views and no like count.\<close>

definition env_zero :: env where
  "env_zero = env_ok\<lparr>youtubedl := (\<lambda>url t. Resolves 900 \<lparr>view_count = Some 0, like_count = None\<rparr>)\<rparr>"

text \<open>An extractor that reports \<open>10^21\<close> views and three likes.\<close>

definition env_big :: env where
  "env_big = env_ok\<lparr>youtubedl := (\<lambda>url t. Resolves 900
     \<lparr>view_count = Some 1000000000000000000000, like_count = Some 3\<rparr>)\<rparr>"

text \<open>The external-media identifiers of a list of songs.\<close>

definition ids :: "Song list \<Rightarrow> string set" where
  "ids songs = youtubeid ` set songs"

text \<open>
  Two answers of the extractor carry the same metrics: both fulfilled with the same
  document, both rejected, or both pending. Latencies may differ.
\<close>

definition same_answer :: "metadata promise \<Rightarrow> metadata promise \<Rightarrow> bool" where
  "same_answer p q =
     (case p of
        Resolves d m \<Rightarrow> (case q of Resolves d' m' \<Rightarrow> m' = m | _ \<Rightarrow> False)
      | Rejects d \<Rightarrow> (case q of Rejects d' \<Rightarrow> True | _ \<Rightarrow> False)
      | Pending \<Rightarrow> (case q of Pending \<Rightarrow> True | _ \<Rightarrow> False))"

text \<open>The extractor answers with the same metrics whenever it is asked about one of the songs.\<close>

definition steady :: "env \<Rightarrow> Song list \<Rightarrow> bool" where
  "steady e songs =
     (\<forall>song \<in> set songs. \<forall>t t'.
        same_answer (youtubedl e (watch_url (youtubeid song)) t)
                    (youtubedl e (watch_url (youtubeid song)) t'))"

text \<open>The object \<open>fetchYouTubeStats\<close> returns for a settled answer of the extractor.\<close>

definition answer_stats :: "env \<Rightarrow> metadata promise \<Rightarrow> stats" where
  "answer_stats e p =
     (case p of
        Resolves d m \<Rightarrow> \<lparr>views = or_else (opt_toString e (view_count m)) ''N/A'',
                         likes = or_else (opt_toString e (like_count m)) ''N/A''\<rparr>
      | _ \<Rightarrow> \<lparr>views = ''N/A'', likes = ''N/A''\<rparr>)"

text \<open>
  Every extractor call of a run except the one that opens it is issued right after a
  \<^verbatim>\<open>sleep(COOLDOWN_MS)\<close>: the event just before it in the trace is that sleep.
\<close>

definition cooled :: "event list \<Rightarrow> bool" where
  "cooled evs = (\<forall>i < length evs. is_call (evs ! i) \<longrightarrow>
                   i = 0 \<or> evs ! (i - 1) = SleepFor COOLDOWN_MS)"

section \<open>Auxiliary facts\<close>

lemma digits_ne: "digits n \<noteq> []"
  by (subst digits.simps) simp

lemma decimal_ne: "decimal n \<noteq> []"
  by (simp add: decimal_def digits_ne)

lemma digits_zero: "digits 0 = ''0''"
  by (subst digits.simps) (simp add: digit_char_def)

lemma decimal_zero: "decimal 0 = ''0''"
  by (simp add: decimal_def digits_zero)

lemma MAX_SAFE_INTEGER_eq: "MAX_SAFE_INTEGER = 2 ^ 53 - 1"
  by (simp add: MAX_SAFE_INTEGER_def)

lemma toString_safe: "isSafeInteger n \<Longrightarrow> toString e n = decimal n"
  by (simp add: toString_def)

lemma digits_chars: "set (digits n) \<subseteq> set ''0123456789''"
proof (induction n rule: digits.induct)
  case (1 n)
  have d: "digit_char k \<in> set ''0123456789''" if "k < 10" for k
  proof -
    have "k \<in> {0, 1, 2, 3, 4, 5, 6, 7, 8, 9}" using that by auto
    then show ?thesis by (auto simp: digit_char_def)
  qed
  show ?case
  proof (cases "n < 10")
    case True
    then show ?thesis using d[of n] by (subst digits.simps) simp
  next
    case False
    then show ?thesis using "1.IH" d[of "n mod 10"]
      by (subst digits.simps) simp
  qed
qed

lemma decimal_not_NA: "decimal n \<noteq> ''N/A''"
proof
  assume a: "decimal n = ''N/A''"
  show False
  proof (cases "n < 0")
    case True
    with a show False by (simp add: decimal_def)
  next
    case False
    with a have "CHR ''N'' \<in> set (digits (nat n))" by (simp add: decimal_def)
    with digits_chars[of "nat n"] show False by auto
  qed
qed

lemma calls_simps [simp]:
  "calls [] = 0" "calls (xs @ ys) = calls xs + calls ys"
  "calls (CallExtractor u # xs) = Suc (calls xs)"
  "calls (RedisSet k v n # xs) = calls xs"
  "calls (SongFindAll c # xs) = calls xs"
  "calls (SongUpdate a b d # xs) = calls xs"
  "calls (SleepFor n # xs) = calls xs"
  "calls (ConsoleErrorFetch u # xs) = calls xs"
  "calls (ConsoleLogUpdated t u # xs) = calls xs"
  "calls (ConsoleErrorTick # xs) = calls xs"
  by (simp_all add: calls_def is_call_def)

lemma sleeps_simps [simp]:
  "sleeps [] = 0" "sleeps (xs @ ys) = sleeps xs + sleeps ys"
  "sleeps (CallExtractor u # xs) = sleeps xs"
  "sleeps (RedisSet k v n # xs) = sleeps xs"
  "sleeps (SongFindAll c # xs) = sleeps xs"
  "sleeps (SongUpdate a b d # xs) = sleeps xs"
  "sleeps (SleepFor COOLDOWN_MS # xs) = Suc (sleeps xs)"
  "sleeps (ConsoleErrorFetch u # xs) = sleeps xs"
  "sleeps (ConsoleLogUpdated t u # xs) = sleeps xs"
  "sleeps (ConsoleErrorTick # xs) = sleeps xs"
  by (simp_all add: sleeps_def)

lemma fetch_Some:
  assumes "fetchYouTubeStats e yid st = Some (s, st1)"
  shows "songs_table st1 = songs_table st" "redis_store st1 = redis_store st"
    "now st \<le> now st1"
    "\<exists>evs. trace st1 = trace st @ evs \<and> calls evs = 1 \<and> sleeps evs = 0"
  using assms
  by (auto simp: fetchYouTubeStats_def emit_def elapse_def Let_def split: promise.splits)

lemma redis_Some:
  assumes "redis_set_EX e k v n st = Some (c, st1)"
  shows "songs_table st1 = songs_table st"
    "now st \<le> now st1"
    "\<exists>evs. trace st1 = trace st @ evs \<and> calls evs = 0 \<and> sleeps evs = 0"
    "c = Normal \<Longrightarrow> redis_store st1 = (redis_store st)(k \<mapsto> (v, n))"
    "c = Threw \<Longrightarrow> redis_store st1 = redis_store st"
  using assms
  by (auto simp: redis_set_EX_def emit_def elapse_def Let_def split: promise.splits)

lemma update_Some:
  assumes "Song_update e v l yid st = Some (c, st1)"
  shows "redis_store st1 = redis_store st"
    "now st \<le> now st1"
    "\<exists>evs. trace st1 = trace st @ evs \<and> calls evs = 0 \<and> sleeps evs = 0"
    "c = Normal \<Longrightarrow> songs_table st1 = update_rows v l yid (now st) (songs_table st)"
    "c = Threw \<Longrightarrow> songs_table st1 = songs_table st"
  using assms
  by (auto simp: Song_update_def emit_def elapse_def Let_def split: promise.splits)

lemma processSong_cases:
  assumes "processSong e song st = Some (c, st')"
  obtains
    (cache_threw) s st1 where
      "fetchYouTubeStats e (youtubeid song) st = Some (s, st1)"
      "redis_set_EX e (''ytstats:'' @ youtubeid song) (JSON_stringify s) 60 st1 = Some (Threw, st')"
      "c = Threw"
  | (store_threw) s st1 st2 where
      "fetchYouTubeStats e (youtubeid song) st = Some (s, st1)"
      "redis_set_EX e (''ytstats:'' @ youtubeid song) (JSON_stringify s) 60 st1 = Some (Normal, st2)"
      "Song_update e (views s) (likes s) (youtubeid song) st2 = Some (Threw, st')"
      "c = Threw"
  | (slept) s st1 st2 st3 where
      "fetchYouTubeStats e (youtubeid song) st = Some (s, st1)"
      "redis_set_EX e (''ytstats:'' @ youtubeid song) (JSON_stringify s) 60 st1 = Some (Normal, st2)"
      "Song_update e (views s) (likes s) (youtubeid song) st2 = Some (Normal, st3)"
      "st' = sleep e COOLDOWN_MS (emit (ConsoleLogUpdated (now st3) (youtubeid song)) st3)"
      "c = Normal"
  using assms
  by (auto simp: processSong_def split: option.splits completion.splits)

lemma sleep_facts:
  "songs_table (sleep e ms (emit ev st)) = songs_table st"
  "redis_store (sleep e ms (emit ev st)) = redis_store st"
  "now st + int ms \<le> now (sleep e ms (emit ev st))"
  "trace (sleep e ms (emit ev st)) = trace st @ [ev, SleepFor ms]"
  by (simp_all add: sleep_def emit_def elapse_def)

lemma processSong_trace:
  assumes "processSong e song st = Some (c, st')"
  shows "\<exists>evs. trace st' = trace st @ evs \<and> calls evs = 1 \<and>
           sleeps evs = (if c = Normal then 1 else 0)"
  using assms
proof (cases rule: processSong_cases)
  case (cache_threw s st1)
  with fetch_Some(4)[OF cache_threw(1)] redis_Some(3)[OF cache_threw(2)] show ?thesis by auto
next
  case (store_threw s st1 st2)
  with fetch_Some(4)[OF store_threw(1)] redis_Some(3)[OF store_threw(2)]
    update_Some(3)[OF store_threw(3)] show ?thesis by auto
next
  case (slept s st1 st2 st3)
  with fetch_Some(4)[OF slept(1)] redis_Some(3)[OF slept(2)]
    update_Some(3)[OF slept(3)] show ?thesis by (auto simp: sleep_facts)
qed

lemma processSong_clock:
  assumes "processSong e song st = Some (c, st')"
  shows "now st + (if c = Normal then int COOLDOWN_MS else 0) \<le> now st'"
  using assms
proof (cases rule: processSong_cases)
  case (cache_threw s st1)
  with fetch_Some(3)[OF cache_threw(1)] redis_Some(2)[OF cache_threw(2)] show ?thesis by auto
next
  case (store_threw s st1 st2)
  with fetch_Some(3)[OF store_threw(1)] redis_Some(2)[OF store_threw(2)]
    update_Some(2)[OF store_threw(3)] show ?thesis by auto
next
  case (slept s st1 st2 st3)
  with fetch_Some(3)[OF slept(1)] redis_Some(2)[OF slept(2)]
    update_Some(2)[OF slept(3)] sleep_facts(3)[of st3 COOLDOWN_MS e "ConsoleLogUpdated (now st3) (youtubeid song)"]
  show ?thesis by auto
qed

lemma forSongs_pacing:
  assumes "forSongs e songs st = Some (c, st')"
  shows "\<exists>evs. trace st' = trace st @ evs \<and>
           calls evs = sleeps evs + (if c = Normal then 0 else 1) \<and>
           calls evs \<le> length songs \<and>
           (c = Normal \<longrightarrow> calls evs = length songs) \<and>
           now st + int (sleeps evs) * int COOLDOWN_MS \<le> now st'"
  using assms
proof (induction songs arbitrary: st)
  case Nil
  then show ?case by simp
next
  case (Cons song songs)
  from Cons.prems obtain c1 st1 where p: "processSong e song st = Some (c1, st1)"
    by (auto split: option.splits)
  from processSong_trace[OF p] obtain evs1 where
    t1: "trace st1 = trace st @ evs1" "calls evs1 = 1" "sleeps evs1 = (if c1 = Normal then 1 else 0)"
    by blast
  note k1 = processSong_clock[OF p]
  show ?case
  proof (cases c1)
    case Threw
    with Cons.prems p have "c = Threw" "st' = st1" by auto
    with t1 k1 Threw show ?thesis by auto
  next
    case Normal
    with Cons.prems p have "forSongs e songs st1 = Some (c, st')" by simp
    from Cons.IH[OF this] obtain evs where
      t: "trace st' = trace st1 @ evs"
         "calls evs = sleeps evs + (if c = Normal then 0 else 1)"
         "calls evs \<le> length songs"
         "c = Normal \<longrightarrow> calls evs = length songs"
         "now st1 + int (sleeps evs) * int COOLDOWN_MS \<le> now st'"
      by blast
    have "trace st' = trace st @ (evs1 @ evs)" using t1 t by simp
    moreover have "now st + int (sleeps (evs1 @ evs)) * int COOLDOWN_MS \<le> now st'"
      using t1 t k1 Normal by (simp add: algebra_simps)
    ultimately show ?thesis using t1 t Normal
      by (intro exI[of _ "evs1 @ evs"]) auto
  qed
qed


lemma during_append: "trace st' = trace st @ evs \<Longrightarrow> during st st' = evs"
  by (simp add: during_def)

lemmas scenario_defs = world0_def env_ok_def env_hang_def env_dbfail_def env_zero_def env_big_def
  song_abc_def song_xyz_def song_new_def

lemmas run_defs = processSong_def fetchYouTubeStats_def redis_set_EX_def Song_update_def
  sleep_def emit_def elapse_def watch_url_def update_rows_def Let_def

lemma run_two: "\<exists>st'. forSongs env_ok [song_abc, song_xyz] world0 = Some (Normal, st')"
  by (simp add: scenario_defs run_defs)

lemma frame_row_refl: "frame_row r r"
  by (simp add: frame_row_def)

lemma frame_row_trans: "frame_row a b \<Longrightarrow> frame_row b c \<Longrightarrow> frame_row a c"
  by (simp add: frame_row_def)

lemma update_rows_rel:
  "list_all2 (\<lambda>r r'. frame_row r r' \<and>
       (youtubeid r \<noteq> yid \<longrightarrow> r' = r) \<and>
       (youtubeid r = yid \<longrightarrow>
          song_views r' = TextVal v \<and> song_likes r' = TextVal l \<and> updatedAt r' = t))
     rows (update_rows v l yid t rows)"
  by (simp add: update_rows_def list_all2_map2 list_all2_same frame_row_def)

lemma processSong_rows:
  assumes "processSong e song st = Some (c, st')"
  shows "list_all2 (\<lambda>r r'. frame_row r r' \<and>
           (youtubeid r \<noteq> youtubeid song \<longrightarrow> r' = r) \<and>
           (r' = r \<or> now st \<le> updatedAt r') \<and>
           (c = Normal \<longrightarrow> youtubeid r = youtubeid song \<longrightarrow> now st \<le> updatedAt r'))
         (songs_table st) (songs_table st')"
  using assms
proof (cases rule: processSong_cases)
  case (cache_threw s st1)
  with fetch_Some(1)[OF cache_threw(1)] redis_Some(1)[OF cache_threw(2)]
  show ?thesis by (simp add: list_all2_same frame_row_refl)
next
  case (store_threw s st1 st2)
  with fetch_Some(1)[OF store_threw(1)] redis_Some(1)[OF store_threw(2)]
    update_Some(5)[OF store_threw(3)]
  show ?thesis by (simp add: list_all2_same frame_row_refl)
next
  case (slept s st1 st2 st3)
  have t: "songs_table st' = update_rows (views s) (likes s) (youtubeid song) (now st2) (songs_table st)"
    using slept fetch_Some(1)[OF slept(1)] redis_Some(1)[OF slept(2)] update_Some(4)[OF slept(3)]
    by (simp add: sleep_facts)
  have k: "now st \<le> now st2"
    using fetch_Some(3)[OF slept(1)] redis_Some(2)[OF slept(2)] by simp
  show ?thesis unfolding t
    by (rule list_all2_mono[OF update_rows_rel]) (use k in auto)
qed

lemma forSongs_rows:
  assumes "forSongs e songs st = Some (c, st')"
  shows "list_all2 (\<lambda>r r'. frame_row r r' \<and>
           (youtubeid r \<notin> ids songs \<longrightarrow> r' = r) \<and>
           (r' = r \<or> now st \<le> updatedAt r') \<and>
           (c = Normal \<longrightarrow> youtubeid r \<in> ids songs \<longrightarrow> now st \<le> updatedAt r'))
         (songs_table st) (songs_table st')"
  using assms
proof (induction songs arbitrary: st)
  case Nil
  then show ?case by (simp add: list_all2_same frame_row_refl ids_def)
next
  case (Cons song songs)
  from Cons.prems obtain c1 st1 where p: "processSong e song st = Some (c1, st1)"
    by (auto split: option.splits)
  note r1 = processSong_rows[OF p]
  have k1: "now st \<le> now st1" using processSong_clock[OF p] by (simp split: if_splits)
  show ?case
  proof (cases c1)
    case Threw
    with Cons.prems p have "c = Threw" "st' = st1" by auto
    with r1 show ?thesis
      by (auto simp: ids_def elim!: list_all2_mono)
  next
    case Normal
    with Cons.prems p have "forSongs e songs st1 = Some (c, st')" by simp
    note r2 = Cons.IH[OF this]
    show ?thesis
      by (rule list_all2_trans[OF _ r1 r2])
         (use k1 Normal in \<open>auto simp: ids_def frame_row_def\<close>)
  qed
qed

lemma findAll_Some:
  assumes "Song_findAll_lt e cutoff st = Some ((Normal, songs), st0)"
  shows "songs = filter (\<lambda>r. updatedAt r < cutoff) (songs_table st)"
    "songs_table st0 = songs_table st" "now st \<le> now st0"
  using assms
  by (auto simp: Song_findAll_lt_def emit_def elapse_def Let_def split: promise.splits)

text \<open>
  The same at the level of the whole function, once \<^verbatim>\<open>Op\<close> resolves: after a tick that
  ran to its end, every row that was older than the cutoff has been refreshed.
\<close>

lemma tick_refreshes_stale_rows:
  assumes "updateAllStatsInBackground (Some ops) e st = Some (Normal, st')"
  shows "length (songs_table st') = length (songs_table st) \<and>
         (\<forall>i < length (songs_table st).
            updatedAt (songs_table st ! i) < now st - 600000 \<longrightarrow>
              now st \<le> updatedAt (songs_table st' ! i))"
proof -
  from assms obtain songs st0 where
    q: "Song_findAll_lt e (now st - 600000) st = Some ((Normal, songs), st0)"
    and l: "forSongs e songs st0 = Some (Normal, st')"
    by (auto simp: updateAllStatsInBackground_def catch_and_log_def try_block_def
        split: option.splits completion.splits prod.splits)
  note f = findAll_Some[OF q]
  from forSongs_rows[OF l] have
    r: "length (songs_table st') = length (songs_table st)"
       "\<forall>i < length (songs_table st).
          youtubeid (songs_table st ! i) \<in> ids songs \<longrightarrow> now st0 \<le> updatedAt (songs_table st' ! i)"
    using f(2) by (simp_all add: list_all2_conv_all_nth)
  have "youtubeid (songs_table st ! i) \<in> ids songs"
    if "i < length (songs_table st)" "updatedAt (songs_table st ! i) < now st - 600000" for i
    using that f(1) by (auto simp: ids_def)
  with r f(3) show ?thesis by fastforce
qed

lemma fetch_answer:
  "fetchYouTubeStats e yid st = Some (s, st1) \<Longrightarrow>
     s = answer_stats e (youtubedl e (watch_url yid) (now st))"
  by (auto simp: fetchYouTubeStats_def answer_stats_def Let_def split: promise.splits)

lemma same_answer_stats: "same_answer p q \<Longrightarrow> answer_stats e p = answer_stats e q"
  by (auto simp: same_answer_def answer_stats_def split: promise.splits)

lemma processSong_values:
  assumes "processSong e song st = Some (Normal, st')"
  shows "list_all2 (\<lambda>r r'. youtubeid r' = youtubeid r \<and>
           (if youtubeid r = youtubeid song
            then song_views r' = TextVal (views (answer_stats e (youtubedl e (watch_url (youtubeid song)) (now st)))) \<and>
                 song_likes r' = TextVal (likes (answer_stats e (youtubedl e (watch_url (youtubeid song)) (now st))))
            else r' = r))
         (songs_table st) (songs_table st')"
  using assms
proof (cases rule: processSong_cases)
  case (slept s st1 st2 st3)
  have t: "songs_table st' = update_rows (views s) (likes s) (youtubeid song) (now st2) (songs_table st)"
    using slept fetch_Some(1)[OF slept(1)] redis_Some(1)[OF slept(2)] update_Some(4)[OF slept(3)]
    by (simp add: sleep_facts)
  note a = fetch_answer[OF slept(1)]
  show ?thesis unfolding t
    by (rule list_all2_mono[OF update_rows_rel]) (use a in \<open>auto simp: frame_row_def\<close>)
qed simp_all

lemma forSongs_values:
  assumes "steady e songs" "forSongs e songs st = Some (Normal, st')"
  shows "list_all2 (\<lambda>r r'. youtubeid r' = youtubeid r \<and>
           (if youtubeid r \<in> ids songs
            then song_views r' = TextVal (views (answer_stats e (youtubedl e (watch_url (youtubeid r)) 0))) \<and>
                 song_likes r' = TextVal (likes (answer_stats e (youtubedl e (watch_url (youtubeid r)) 0)))
            else song_views r' = song_views r \<and> song_likes r' = song_likes r))
         (songs_table st) (songs_table st')"
  using assms
proof (induction songs arbitrary: st)
  case Nil
  then show ?case by (simp add: list_all2_same ids_def)
next
  case (Cons song songs)
  from Cons.prems(2) obtain st1 where p: "processSong e song st = Some (Normal, st1)"
    and f: "forSongs e songs st1 = Some (Normal, st')"
    by (auto split: option.splits completion.splits)
  have s: "steady e songs" using Cons.prems(1) by (simp add: steady_def)
  have "same_answer (youtubedl e (watch_url (youtubeid song)) (now st))
                    (youtubedl e (watch_url (youtubeid song)) 0)"
    using Cons.prems(1) by (simp add: steady_def)
  then have a: "answer_stats e (youtubedl e (watch_url (youtubeid song)) (now st))
        = answer_stats e (youtubedl e (watch_url (youtubeid song)) 0)"
    by (rule same_answer_stats)
  note r1 = processSong_values[OF p]
  note r2 = Cons.IH[OF s f]
  show ?case
    by (rule list_all2_trans[OF _ r1 r2]) (use a in \<open>auto simp: ids_def split: if_splits\<close>)
qed

lemma steady_ok: "steady env_ok [song_abc, song_xyz]"
  by (simp add: steady_def same_answer_def scenario_defs watch_url_def)


lemma redis_trace:
  "redis_set_EX e k v n st = Some (c, st1) \<Longrightarrow> trace st1 = trace st @ [RedisSet k v n]"
  by (auto simp: redis_set_EX_def emit_def elapse_def Let_def split: promise.splits)

lemma update_trace:
  "Song_update e v l yid st = Some (c, st1) \<Longrightarrow> trace st1 = trace st @ [SongUpdate v l yid]"
  by (auto simp: Song_update_def emit_def elapse_def Let_def split: promise.splits)


lemma json_sentinel:
  \<open>JSON_stringify \<lparr>views = ''N/A'', likes = ''N/A''\<rparr> = ''{"views":"N/A","likes":"N/A"}''\<close>
  by (simp add: JSON_stringify_def json_string_def json_escape_def)



lemma forSongs_append:
  "forSongs e (xs @ ys) st =
     (case forSongs e xs st of
        None \<Rightarrow> None
      | Some (Threw, st') \<Rightarrow> Some (Threw, st')
      | Some (Normal, st') \<Rightarrow> forSongs e ys st')"
  by (induction xs arbitrary: st) (auto split: option.splits completion.splits)

lemma Song_update_rejected:
  "Song_update_io e yid (now st) = Rejects d \<Longrightarrow>
     Song_update e v l yid st = Some (Threw, elapse d (emit (SongUpdate v l yid) st))"
  by (simp add: Song_update_def Let_def)

lemma unbound_Op_throws:
  "updateAllStatsInBackground None e st = Some (Threw, emit ConsoleErrorTick st)"
  by (simp add: updateAllStatsInBackground_def catch_and_log_def try_block_def)

lemma selection_when_Op_is_bound:
  assumes "Song_findAll_io e (now st - 10 * 60 * 1000) (now st) = Resolves d u"
  shows "try_block (Some ops) e st =
           forSongs e (filter (\<lambda>r. updatedAt r < now st - 600000) (songs_table st))
             (elapse d (emit (SongFindAll (now st - 600000)) st))"
  using assms by (simp add: try_block_def Song_findAll_lt_def Let_def emit_def)

lemma calls_zero_nth: "calls evs = 0 \<Longrightarrow> i < length evs \<Longrightarrow> \<not> is_call (evs ! i)"
  by (auto simp: calls_def filter_empty_conv)

lemma fetch_shape:
  assumes "fetchYouTubeStats e yid st = Some (s, st1)"
  shows "\<exists>evs. trace st1 = trace st @ CallExtractor (watch_url yid) # evs \<and>
           calls evs = 0 \<and> sleeps evs = 0"
  using assms
  by (auto simp: fetchYouTubeStats_def emit_def elapse_def Let_def split: promise.splits)

lemma processSong_shape:
  assumes "processSong e song st = Some (c, st')"
  shows "\<exists>evs. trace st' = trace st @ CallExtractor (watch_url (youtubeid song)) # evs \<and>
           calls evs = 0 \<and>
           (c = Normal \<longrightarrow>
              (\<exists>pre t. evs = pre @ [ConsoleLogUpdated t (youtubeid song), SleepFor COOLDOWN_MS] \<and>
                 t + int COOLDOWN_MS \<le> now st'))"
  using assms
proof (cases rule: processSong_cases)
  case (cache_threw s st1)
  from fetch_shape[OF cache_threw(1)] redis_trace[OF cache_threw(2)] cache_threw(3)
  show ?thesis by auto
next
  case (store_threw s st1 st2)
  from fetch_shape[OF store_threw(1)] redis_trace[OF store_threw(2)]
    update_trace[OF store_threw(3)] store_threw(4)
  show ?thesis by auto
next
  case (slept s st1 st2 st3)
  from fetch_shape[OF slept(1)] obtain evs0 where
    f: "trace st1 = trace st @ CallExtractor (watch_url (youtubeid song)) # evs0" "calls evs0 = 0"
    by blast
  let ?mid = "evs0 @ [RedisSet (''ytstats:'' @ youtubeid song) (JSON_stringify s) 60,
      SongUpdate (views s) (likes s) (youtubeid song)]"
  have t: "trace st' = trace st @ CallExtractor (watch_url (youtubeid song)) #
      (?mid @ [ConsoleLogUpdated (now st3) (youtubeid song), SleepFor COOLDOWN_MS])"
    using f redis_trace[OF slept(2)] update_trace[OF slept(3)] slept(4)
    by (simp add: sleep_facts)
  have k: "now st3 + int COOLDOWN_MS \<le> now st'"
    using slept(4) sleep_facts(3)[of st3 COOLDOWN_MS e "ConsoleLogUpdated (now st3) (youtubeid song)"]
    by simp
  have c0: "calls (?mid @ [ConsoleLogUpdated (now st3) (youtubeid song), SleepFor COOLDOWN_MS]) = 0"
    using f(2) by simp
  show ?thesis
    apply (rule exI[of _ "?mid @ [ConsoleLogUpdated (now st3) (youtubeid song), SleepFor COOLDOWN_MS]"])
    apply (intro conjI impI)
      apply (rule t)
     apply (rule c0)
    apply (rule exI[of _ ?mid], rule exI[of _ "now st3"])
    using k apply simp
    done
qed

lemma cooled_single: "calls evs = 0 \<Longrightarrow> cooled (CallExtractor u # evs)"
  unfolding cooled_def
proof (intro allI impI)
  fix i assume z: "calls evs = 0" and i: "i < length (CallExtractor u # evs)"
    and c: "is_call ((CallExtractor u # evs) ! i)"
  show "i = 0 \<or> (CallExtractor u # evs) ! (i - 1) = SleepFor COOLDOWN_MS"
  proof (cases i)
    case 0 then show ?thesis by simp
  next
    case (Suc j)
    with i c calls_zero_nth[OF z, of j] show ?thesis by simp
  qed
qed

lemma cooled_append:
  assumes "cooled xs" "cooled ys" "xs \<noteq> []" "last xs = SleepFor COOLDOWN_MS"
  shows "cooled (xs @ ys)"
  unfolding cooled_def
proof (intro allI impI)
  fix i assume i: "i < length (xs @ ys)" and c: "is_call ((xs @ ys) ! i)"
  show "i = 0 \<or> (xs @ ys) ! (i - 1) = SleepFor COOLDOWN_MS"
  proof (cases "i < length xs")
    case True
    with c have "is_call (xs ! i)" by (simp add: nth_append)
    with assms(1) True have "i = 0 \<or> xs ! (i - 1) = SleepFor COOLDOWN_MS"
      by (simp add: cooled_def)
    with True show ?thesis by (auto simp: nth_append)
  next
    case False
    define j where "j = i - length xs"
    have j: "j < length ys" "i = length xs + j" using i False by (simp_all add: j_def)
    with c have cj: "is_call (ys ! j)" by (simp add: nth_append)
    show ?thesis
    proof (cases j)
      case 0
      with j have "(xs @ ys) ! (i - 1) = last xs"
        using assms(3) by (simp add: nth_append last_conv_nth)
      with assms(4) show ?thesis by simp
    next
      case (Suc k)
      with assms(2) j cj have "ys ! (j - 1) = SleepFor COOLDOWN_MS"
        by (auto simp: cooled_def)
      moreover have "(xs @ ys) ! (i - 1) = ys ! (j - 1)"
        using j Suc by (simp add: nth_append)
      ultimately show ?thesis by simp
    qed
  qed
qed

lemma forSongs_shape:
  assumes "forSongs e songs st = Some (c, st')"
  shows "\<exists>evs. trace st' = trace st @ evs \<and> cooled evs \<and>
           (c = Normal \<longrightarrow> songs \<noteq> [] \<longrightarrow>
              (\<exists>pre t. evs = pre @ [ConsoleLogUpdated t (youtubeid (last songs)), SleepFor COOLDOWN_MS] \<and>
                 t + int COOLDOWN_MS \<le> now st'))"
  using assms
proof (induction songs arbitrary: st)
  case Nil
  then show ?case by (simp add: cooled_def)
next
  case (Cons song songs)
  from Cons.prems obtain c1 st1 where p: "processSong e song st = Some (c1, st1)"
    by (auto split: option.splits)
  from processSong_shape[OF p] obtain evs1 where
    s1: "trace st1 = trace st @ CallExtractor (watch_url (youtubeid song)) # evs1"
        "calls evs1 = 0"
        "c1 = Normal \<longrightarrow>
              (\<exists>pre t. evs1 = pre @ [ConsoleLogUpdated t (youtubeid song), SleepFor COOLDOWN_MS] \<and>
                 t + int COOLDOWN_MS \<le> now st1)"
    by blast
  let ?e1 = "CallExtractor (watch_url (youtubeid song)) # evs1"
  note c1 = cooled_single[OF s1(2), of "watch_url (youtubeid song)"]
  show ?case
  proof (cases c1)
    case Threw
    with Cons.prems p have "c = Threw" "st' = st1" by auto
    with s1(1) c1 show ?thesis by auto
  next
    case Normal
    with Cons.prems p have l: "forSongs e songs st1 = Some (c, st')" by simp
    from Cons.IH[OF l] obtain evs where
      t: "trace st' = trace st1 @ evs" "cooled evs"
         "c = Normal \<longrightarrow> songs \<noteq> [] \<longrightarrow>
              (\<exists>pre t. evs = pre @ [ConsoleLogUpdated t (youtubeid (last songs)), SleepFor COOLDOWN_MS] \<and>
                 t + int COOLDOWN_MS \<le> now st')"
      by blast
    from s1(3) Normal obtain pre1 t1 where
      e1: "evs1 = pre1 @ [ConsoleLogUpdated t1 (youtubeid song), SleepFor COOLDOWN_MS]"
          "t1 + int COOLDOWN_MS \<le> now st1"
      by blast
    have la: "last ?e1 = SleepFor COOLDOWN_MS" using e1(1) by simp
    have co: "cooled (?e1 @ evs)" by (rule cooled_append[OF c1 t(2) _ la]) simp
    have tr: "trace st' = trace st @ (?e1 @ evs)" using s1(1) t(1) by simp
    have fin: "\<exists>pre t. ?e1 @ evs = pre @ [ConsoleLogUpdated t (youtubeid (last (song # songs))), SleepFor COOLDOWN_MS] \<and>
                 t + int COOLDOWN_MS \<le> now st'" if n: "c = Normal"
    proof (cases "songs = []")
      case True
      with l have "st' = st1" by simp
      moreover from True t(1) \<open>st' = st1\<close> have "evs = []" by simp
      ultimately show ?thesis using e1 True
        by (intro exI[of _ "CallExtractor (watch_url (youtubeid song)) # pre1"] exI[of _ t1]) simp
    next
      case False
      with t(3) n obtain pre t where
        "evs = pre @ [ConsoleLogUpdated t (youtubeid (last songs)), SleepFor COOLDOWN_MS]"
        "t + int COOLDOWN_MS \<le> now st'" by blast
      with False show ?thesis
        by (intro exI[of _ "?e1 @ pre"] exI[of _ t]) simp
    qed
    from tr co fin show ?thesis by blast
  qed
qed

section \<open>The claims\<close>

text \<open>
  C1, as stated: for every song whose extractor fetch fails, timeout included, the
  synchronizer produces the sentinel \<^verbatim>\<open>{views: "unknown", likes: "unknown"}\<close>, writes it
  to the cache and to the store, and the loop proceeds to the next song. It fails twice:
  an extractor that never answers is never timed out, so the loop never reaches the
  second song; and the pair produced for a rejected call is \<^verbatim>\<open>'N/A'\<close>, \<^verbatim>\<open>'N/A'\<close>.
\<close>

theorem sentinel_counterexample:
  "forSongs env_hang [song_xyz, song_abc] world0 = None \<and>
   map_option fst (fetchYouTubeStats env_ok ''xyz789'' world0)
     = Some \<lparr>views = ''N/A'', likes = ''N/A''\<rparr>"
  by (simp add: scenario_defs run_defs)

text \<open>
  C1, amended. For every song whose extractor call is rejected, \<open>fetchYouTubeStats\<close>
  logs the error and returns the sentinel \<^verbatim>\<open>{views: 'N/A', likes: 'N/A'}\<close> instead of
  raising; when the cache write and the durable write that follow succeed, the sentinel
  is in the cache under the song's key with a 60-second expiry and in the \<open>views\<close> and
  \<open>likes\<close> columns of the song's rows, and the loop goes on with the next song. No
  timeout is applied to the extractor.
\<close>

theorem rejected_fetch_gives_sentinel_and_loop_goes_on:
  assumes "youtubedl e (watch_url (youtubeid song)) (now st) = Rejects d"
    and "redis_set e (''ytstats:'' @ youtubeid song)
           (JSON_stringify \<lparr>views = ''N/A'', likes = ''N/A''\<rparr>) (now st + int d) = Resolves d2 u2"
    and "Song_update_io e (youtubeid song) (now st + int d + int d2) = Resolves d3 u3"
  shows "\<exists>st1 st'.
     fetchYouTubeStats e (youtubeid song) st = Some (\<lparr>views = ''N/A'', likes = ''N/A''\<rparr>, st1) \<and>
     ConsoleErrorFetch (youtubeid song) \<in> set (during st st1) \<and>
     processSong e song st = Some (Normal, st') \<and>
     redis_store st' (''ytstats:'' @ youtubeid song)
       = Some (JSON_stringify \<lparr>views = ''N/A'', likes = ''N/A''\<rparr>, 60) \<and>
     (\<forall>r \<in> set (songs_table st'). youtubeid r = youtubeid song \<longrightarrow>
        song_views r = TextVal ''N/A'' \<and> song_likes r = TextVal ''N/A'') \<and>
     forSongs e (song # rest) st = forSongs e rest st'"
  using assms
  by (simp add: run_defs during_def) (auto simp: update_rows_def)

theorem rejected_fetch_gives_sentinel_and_loop_goes_on_witness:
  "youtubedl env_ok (watch_url (youtubeid song_xyz)) (now world0) = Rejects 800 \<and>
   (\<exists>st'. processSong env_ok song_xyz world0 = Some (Normal, st') \<and>
      redis_store st' (''ytstats:'' @ youtubeid song_xyz)
        = Some (JSON_stringify \<lparr>views = ''N/A'', likes = ''N/A''\<rparr>, 60) \<and>
      forSongs env_ok [song_xyz, song_abc] world0 = forSongs env_ok [song_abc] st')"
proof -
  have a: "youtubedl env_ok (watch_url (youtubeid song_xyz)) (now world0) = Rejects 800"
    by (simp add: scenario_defs watch_url_def)
  have b: "redis_set env_ok (''ytstats:'' @ youtubeid song_xyz)
           (JSON_stringify \<lparr>views = ''N/A'', likes = ''N/A''\<rparr>) (now world0 + int 800) = Resolves 2 ()"
    by (simp add: env_ok_def)
  have c: "Song_update_io env_ok (youtubeid song_xyz) (now world0 + int 800 + int 2) = Resolves 7 ()"
    by (simp add: env_ok_def)
  from rejected_fetch_gives_sentinel_and_loop_goes_on[OF a b c, of "[song_abc]"] a
  show ?thesis by blast
qed

text \<open>
  C2. The claim: on each tick the selection returns exactly the songs whose last-updated
  timestamp is strictly older than ten minutes before the tick's time. In the module as
  written the identifier \<^verbatim>\<open>Op\<close> is unbound, so the query is never issued: with two
  songs older than the cutoff in the table, the tick throws, logs and ends with the
  world untouched but for the log line. (\<open>selection_when_Op_is_bound\<close> above states
  what the query selects once \<^verbatim>\<open>Op\<close> resolves: the strictly older rows.)
\<close>

theorem selection_never_runs:
  "filter (\<lambda>r. updatedAt r < now world0 - 10 * 60 * 1000) (songs_table world0) = [song_abc, song_xyz] \<and>
   updateAllStatsInBackground index_js_Op env_ok world0 = Some (Threw, emit ConsoleErrorTick world0)"
  by (simp add: updateAllStatsInBackground_def catch_and_log_def try_block_def index_js_Op_def)
     (simp add: scenario_defs)



text \<open>
  C4, as stated: when the durable write for one song fails, the synchronizer logs and
  continues with the next song of the tick. It fails: with a store that rejects the
  update, the loop over two stale songs is left at the first song's update for the
  handler, which logs; the second song is never fetched.
\<close>

theorem tick_aborts_counterexample:
  "map_option fst (catch_and_log (forSongs env_dbfail [song_abc, song_xyz] world0)) = Some Threw \<and>
   map_option (trace \<circ> snd) (catch_and_log (forSongs env_dbfail [song_abc, song_xyz] world0))
     = Some [CallExtractor (watch_url ''abc123''),
             RedisSet ''ytstats:abc123'' (JSON_stringify \<lparr>views = ''150'', likes = ''12''\<rparr>) 60,
             SongUpdate ''150'' ''12'' ''abc123'', ConsoleErrorTick]"
  by (simp add: catch_and_log_def scenario_defs
      run_defs or_else_def opt_toString_def toString_def isSafeInteger_def MAX_SAFE_INTEGER_def
      decimal_def digits.simps digit_char_def)

text \<open>
  C4, amended. When the durable write for one song fails, the exception leaves the loop
  for the single handler of the function, which logs the failure and ends the tick: the
  songs after the failing one are not processed in this tick, the table is as the songs
  before it left it, and nothing is raised past the handler.
\<close>

theorem failed_durable_write_ends_tick:
  assumes "forSongs e pre st = Some (Normal, st1)"
    and "fetchYouTubeStats e (youtubeid song) st1 = Some (s, st2)"
    and "redis_set_EX e (''ytstats:'' @ youtubeid song) (JSON_stringify s) 60 st2 = Some (Normal, st3)"
    and "Song_update_io e (youtubeid song) (now st3) = Rejects d"
  shows "catch_and_log (forSongs e (pre @ song # rest) st) =
           Some (Threw, emit ConsoleErrorTick
                   (elapse d (emit (SongUpdate (views s) (likes s) (youtubeid song)) st3))) \<and>
         songs_table (emit ConsoleErrorTick
                   (elapse d (emit (SongUpdate (views s) (likes s) (youtubeid song)) st3)))
           = songs_table st1"
proof -
  have p: "processSong e song st1 =
      Some (Threw, elapse d (emit (SongUpdate (views s) (likes s) (youtubeid song)) st3))"
    using assms(2,3) Song_update_rejected[OF assms(4)] by (simp add: processSong_def)
  have "forSongs e (pre @ song # rest) st =
      Some (Threw, elapse d (emit (SongUpdate (views s) (likes s) (youtubeid song)) st3))"
    using assms(1) p by (simp add: forSongs_append)
  then have "catch_and_log (forSongs e (pre @ song # rest) st) =
           Some (Threw, emit ConsoleErrorTick
                   (elapse d (emit (SongUpdate (views s) (likes s) (youtubeid song)) st3)))"
    by (simp add: catch_and_log_def)
  moreover have "songs_table st3 = songs_table st1"
    using fetch_Some(1)[OF assms(2)] redis_Some(1)[OF assms(3)] by simp
  ultimately show ?thesis by (simp add: emit_def elapse_def)
qed

theorem failed_durable_write_ends_tick_witness:
  "\<exists>w. catch_and_log (forSongs env_dbfail ([] @ song_abc # [song_xyz]) world0) = Some (Threw, w) \<and>
     songs_table w = [song_abc, song_xyz, song_new] \<and>
     calls (trace w) = 1 \<and> last (trace w) = ConsoleErrorTick"
proof -
  have b: "forSongs env_dbfail [] world0 = Some (Normal, world0)" by simp
  have "\<exists>s st2. fetchYouTubeStats env_dbfail (youtubeid song_abc) world0 = Some (s, st2) \<and>
      trace st2 = [CallExtractor (watch_url ''abc123'')]"
    by (simp add: scenario_defs fetchYouTubeStats_def watch_url_def Let_def emit_def elapse_def)
  then obtain s st2 where c: "fetchYouTubeStats env_dbfail (youtubeid song_abc) world0 = Some (s, st2)"
    and t2: "trace st2 = [CallExtractor (watch_url ''abc123'')]"
    by (elim exE conjE)
  have "\<exists>st3. redis_set_EX env_dbfail (''ytstats:'' @ youtubeid song_abc) (JSON_stringify s) 60 st2
      = Some (Normal, st3)"
    by (simp add: scenario_defs redis_set_EX_def Let_def)
  then obtain st3 where d: "redis_set_EX env_dbfail (''ytstats:'' @ youtubeid song_abc) (JSON_stringify s) 60 st2
      = Some (Normal, st3)"
    by (elim exE)
  have f: "Song_update_io env_dbfail (youtubeid song_abc) (now st3) = Rejects 7"
    by (simp add: scenario_defs)
  have t3: "trace st3 = trace st2 @ [RedisSet (''ytstats:'' @ youtubeid song_abc) (JSON_stringify s) 60]"
    using d by (rule redis_trace)
  from failed_durable_write_ends_tick[OF b c d f, of "[song_xyz]"] t2 t3
  show ?thesis by (simp add: world0_def emit_def elapse_def)
qed

text \<open>
  C5, as stated: every extractor call is bounded by a timeout and resolves to the
  sentinel even if the extractor never responds. It fails: with an extractor that never
  answers, \<open>fetchYouTubeStats\<close> never returns.
\<close>

theorem no_timeout_counterexample:
  "fetchYouTubeStats env_hang ''xyz789'' world0 = None"
  by (simp add: fetchYouTubeStats_def env_hang_def env_ok_def)

text \<open>
  C5, amended. The synchronizer sets no timeout on the extractor call:
  \<open>fetchYouTubeStats\<close> returns exactly when the extractor's promise settles and at the
  moment it settles, with the \<^verbatim>\<open>'N/A'\<close> pair when the promise is rejected and with the
  two counts of the answer, each coerced by \<^verbatim>\<open>?.toString() || 'N/A'\<close>, when it is
  fulfilled; it never returns when the extractor never responds.
\<close>

theorem fetch_waits_for_extractor:
  "(fetchYouTubeStats e yid st = None) = (youtubedl e (watch_url yid) (now st) = Pending) \<and>
   (\<forall>s st'. fetchYouTubeStats e yid st = Some (s, st') \<longrightarrow>
      (\<exists>d. now st' = now st + int d \<and>
           (youtubedl e (watch_url yid) (now st) = Rejects d \<and> s = \<lparr>views = ''N/A'', likes = ''N/A''\<rparr>
            \<or> (\<exists>m. youtubedl e (watch_url yid) (now st) = Resolves d m \<and>
                  s = \<lparr>views = or_else (opt_toString e (view_count m)) ''N/A'',
                       likes = or_else (opt_toString e (like_count m)) ''N/A''\<rparr> \<and>
                  (\<forall>n. view_count m = Some n \<and> isSafeInteger n \<longrightarrow> views s = decimal n) \<and>
                  (\<forall>n. like_count m = Some n \<and> isSafeInteger n \<longrightarrow> likes s = decimal n) \<and>
                  (view_count m = None \<longrightarrow> views s = ''N/A'') \<and>
                  (like_count m = None \<longrightarrow> likes s = ''N/A'')))))"
  using decimal_ne
  by (auto simp: fetchYouTubeStats_def Let_def emit_def elapse_def or_else_def opt_toString_def
      toString_def split: promise.splits)

theorem fetch_waits_for_extractor_witness:
  "fetchYouTubeStats env_ok ''xyz789'' world0 \<noteq> None \<and>
   youtubedl env_ok (watch_url ''xyz789'') (now world0) = Rejects 800 \<and>
   (\<exists>s st'. fetchYouTubeStats env_ok ''xyz789'' world0 = Some (s, st') \<and>
      now st' = now world0 + 800 \<and> s = \<lparr>views = ''N/A'', likes = ''N/A''\<rparr>) \<and>
   youtubedl env_ok (watch_url ''abc123'') (now world0)
     = Resolves 1500 \<lparr>view_count = Some 150, like_count = Some 12\<rparr> \<and>
   (\<exists>s st'. fetchYouTubeStats env_ok ''abc123'' world0 = Some (s, st') \<and>
      now st' = now world0 + 1500 \<and> views s = decimal 150 \<and> likes s = decimal 12)"
proof -
  have r: "youtubedl env_ok (watch_url ''xyz789'') (now world0) = Rejects 800"
    by (simp add: scenario_defs watch_url_def)
  with fetch_waits_for_extractor[of env_ok "''xyz789''" world0]
  have n: "fetchYouTubeStats env_ok ''xyz789'' world0 \<noteq> None" by simp
  then obtain s st' where h: "fetchYouTubeStats env_ok ''xyz789'' world0 = Some (s, st')" by auto
  with fetch_waits_for_extractor[of env_ok "''xyz789''" world0] r
  have a: "now st' = now world0 + 800 \<and> s = \<lparr>views = ''N/A'', likes = ''N/A''\<rparr>" by auto
  have r2: "youtubedl env_ok (watch_url ''abc123'') (now world0)
     = Resolves 1500 \<lparr>view_count = Some 150, like_count = Some 12\<rparr>"
    by (simp add: scenario_defs watch_url_def)
  with fetch_waits_for_extractor[of env_ok "''abc123''" world0]
  have "fetchYouTubeStats env_ok ''abc123'' world0 \<noteq> None" by simp
  then obtain s2 st2 where h2: "fetchYouTubeStats env_ok ''abc123'' world0 = Some (s2, st2)" by auto
  have safe: "isSafeInteger 150" "isSafeInteger 12"
    by (simp_all add: isSafeInteger_def MAX_SAFE_INTEGER_def)
  from fetch_waits_for_extractor[of env_ok "''abc123''" world0] h2 r2 safe
  have b: "now st2 = now world0 + 1500 \<and> views s2 = decimal 150 \<and> likes s2 = decimal 12"
    by auto
  from r n h a r2 h2 b show ?thesis by blast
qed

text \<open>
  C6, as stated: on a successful fetch a count that is present is converted to its
  decimal text and a count that is absent is replaced by the "unknown" sentinel. It
  fails on the text of the sentinel: for an answer with zero views and no like count the
  code returns \<open>''0''\<close> and \<open>''N/A''\<close>. It also fails beyond the safe integers: a view
  count of \<open>10^21\<close> comes back as \<^verbatim>\<open>'1e+21'\<close>, which is not its decimal text.
\<close>

theorem absent_count_counterexample:
  "map_option fst (fetchYouTubeStats env_zero ''abc123'' world0)
     = Some \<lparr>views = ''0'', likes = ''N/A''\<rparr> \<and>
   map_option (likes \<circ> fst) (fetchYouTubeStats env_zero ''abc123'' world0) \<noteq> Some ''unknown'' \<and>
   map_option (views \<circ> fst) (fetchYouTubeStats env_big ''abc123'' world0) = Some ''1e+21'' \<and>
   decimal 1000000000000000000000 \<noteq> ''1e+21''"
  by (simp add: fetchYouTubeStats_def env_zero_def env_big_def env_ok_def Let_def or_else_def
      opt_toString_def toString_def isSafeInteger_def MAX_SAFE_INTEGER_def decimal_def
      digits.simps digit_char_def)

text \<open>
  C6, amended. When the extractor answers, the two counts are coerced independently:
  \<open>views\<close> is computed from \<open>view_count\<close> alone and \<open>likes\<close> from \<open>like_count\<close> alone;
  a count that is present and a safe integer (at most \<open>2^53 - 1\<close> in magnitude) becomes
  its decimal text (zero becomes \<open>''0''\<close>), a count that is absent becomes the sentinel
  text \<^verbatim>\<open>'N/A'\<close>, and that text is the decimal text of no number.
\<close>

theorem counts_coerced_independently:
  assumes "youtubedl e (watch_url yid) (now st) = Resolves d m"
  shows "\<exists>s st'. fetchYouTubeStats e yid st = Some (s, st') \<and>
           (case view_count m of
              Some n \<Rightarrow> isSafeInteger n \<longrightarrow> views s = decimal n
            | None \<Rightarrow> views s = ''N/A'') \<and>
           (case like_count m of
              Some n \<Rightarrow> isSafeInteger n \<longrightarrow> likes s = decimal n
            | None \<Rightarrow> likes s = ''N/A'') \<and>
           isSafeInteger 0 \<and> decimal 0 = ''0'' \<and> (\<forall>n. decimal n \<noteq> ''N/A'')"
proof -
  have z: "isSafeInteger 0" by (simp add: isSafeInteger_def MAX_SAFE_INTEGER_def)
  show ?thesis
    using assms decimal_ne decimal_not_NA decimal_zero z
    by (auto simp: fetchYouTubeStats_def Let_def or_else_def opt_toString_def toString_def
        split: option.splits)
qed

theorem counts_coerced_independently_witness:
  "youtubedl env_zero (watch_url ''abc123'') (now world0)
     = Resolves 900 \<lparr>view_count = Some 0, like_count = None\<rparr> \<and>
   (\<exists>s st'. fetchYouTubeStats env_zero ''abc123'' world0 = Some (s, st') \<and>
      views s = ''0'' \<and> likes s = ''N/A'')"
proof -
  have h: "youtubedl env_zero (watch_url ''abc123'') (now world0)
     = Resolves 900 \<lparr>view_count = Some 0, like_count = None\<rparr>"
    by (simp add: env_zero_def env_ok_def)
  from counts_coerced_independently[OF h] h show ?thesis by auto
qed

text \<open>
  C7. Every durable write of the loop changes only \<open>views\<close>, \<open>likes\<close> and the
  last-updated timestamp of the rows matched by the song's external-media identifier: in
  every row the other columns are as before, and a row whose identifier belongs to no
  processed song is unchanged altogether. After a loop that ran to its end, every row
  carrying the identifier of a selected song has a last-updated timestamp no older than
  the start of the loop.
\<close>

theorem durable_write_frame_and_refresh:
  assumes "forSongs e songs st = Some (c, st')"
  shows "length (songs_table st') = length (songs_table st) \<and>
         (\<forall>i < length (songs_table st).
            frame_row (songs_table st ! i) (songs_table st' ! i) \<and>
            (youtubeid (songs_table st ! i) \<notin> ids songs \<longrightarrow>
               songs_table st' ! i = songs_table st ! i) \<and>
            (c = Normal \<longrightarrow> youtubeid (songs_table st ! i) \<in> ids songs \<longrightarrow>
               now st \<le> updatedAt (songs_table st' ! i)))"
  using forSongs_rows[OF assms] by (simp add: list_all2_conv_all_nth)

theorem durable_write_frame_and_refresh_witness:
  "\<exists>c st'. forSongs env_ok [song_abc, song_xyz] world0 = Some (c, st') \<and> c = Normal \<and>
     length (songs_table st') = 3 \<and>
     frame_row song_abc (songs_table st' ! 0) \<and>
     now world0 \<le> updatedAt (songs_table st' ! 0) \<and>
     now world0 \<le> updatedAt (songs_table st' ! 1) \<and>
     songs_table st' ! 2 = song_new"
proof -
  from run_two obtain st' where h: "forSongs env_ok [song_abc, song_xyz] world0 = Some (Normal, st')"
    by blast
  have t: "songs_table world0 = [song_abc, song_xyz, song_new]" by (simp add: world0_def)
  have i: "youtubeid song_abc \<in> ids [song_abc, song_xyz]" "youtubeid song_xyz \<in> ids [song_abc, song_xyz]"
     "youtubeid song_new \<notin> ids [song_abc, song_xyz]"
    by (simp_all add: ids_def scenario_defs)
  from durable_write_frame_and_refresh[OF h] have
    "length (songs_table st') = 3"
    "\<forall>i < 3. frame_row ([song_abc, song_xyz, song_new] ! i) (songs_table st' ! i) \<and>
            (youtubeid ([song_abc, song_xyz, song_new] ! i) \<notin> ids [song_abc, song_xyz] \<longrightarrow>
               songs_table st' ! i = [song_abc, song_xyz, song_new] ! i) \<and>
            (youtubeid ([song_abc, song_xyz, song_new] ! i) \<in> ids [song_abc, song_xyz] \<longrightarrow>
               now world0 \<le> updatedAt (songs_table st' ! i))"
    by (simp_all add: t)
  then have "length (songs_table st') = 3"
    "frame_row song_abc (songs_table st' ! 0)"
    "now world0 \<le> updatedAt (songs_table st' ! 0)"
    "now world0 \<le> updatedAt (songs_table st' ! 1)"
    "songs_table st' ! 2 = song_new"
    using i by (auto simp: numeral_3_eq_3 numeral_2_eq_2 less_Suc_eq)
  with h show ?thesis by blast
qed

text \<open>
  C8. Running the loop twice in succession over the same songs, with the extractor
  returning the same metrics both times, leaves the same \<open>views\<close> and \<open>likes\<close> in every
  row after the second run as after the first: the write overwrites the two columns and
  accumulates nothing.
\<close>

theorem second_run_overwrites_same_values:
  assumes "steady e songs"
    and "forSongs e songs st = Some (Normal, st1)"
    and "forSongs e songs st1 = Some (Normal, st2)"
  shows "map song_views (songs_table st2) = map song_views (songs_table st1) \<and>
         map song_likes (songs_table st2) = map song_likes (songs_table st1)"
proof -
  note r1 = forSongs_values[OF assms(1) assms(2)]
  note r2 = forSongs_values[OF assms(1) assms(3)]
  have k: "youtubeid r1 \<in> ids songs \<longrightarrow>
        song_views r1 = TextVal (views (answer_stats e (youtubedl e (watch_url (youtubeid r1)) 0))) \<and>
        song_likes r1 = TextVal (likes (answer_stats e (youtubedl e (watch_url (youtubeid r1)) 0)))"
    if "r1 \<in> set (songs_table st1)" for r1
  proof -
    from that obtain i where i: "i < length (songs_table st1)" "songs_table st1 ! i = r1"
      by (auto simp: in_set_conv_nth)
    with r1 show ?thesis
      by (auto simp: list_all2_conv_all_nth split: if_splits)
  qed
  have "list_all2 (\<lambda>r r'. song_views r' = song_views r \<and> song_likes r' = song_likes r)
          (songs_table st1) (songs_table st2)"
    by (rule list.rel_mono_strong[OF r2]) (use k in \<open>auto split: if_splits\<close>)
  then have "list_all2 (\<lambda>r r'. song_views r = song_views r') (songs_table st2) (songs_table st1)"
    "list_all2 (\<lambda>r r'. song_likes r = song_likes r') (songs_table st2) (songs_table st1)"
    by (auto simp: list_all2_conv_all_nth)
  then show ?thesis
    by (simp add: list_all2_eq list_all2_map1 list_all2_map2)
qed

theorem second_run_overwrites_same_values_witness:
  "steady env_ok [song_abc, song_xyz] \<and>
   (\<exists>st1 st2. forSongs env_ok [song_abc, song_xyz] world0 = Some (Normal, st1) \<and>
      forSongs env_ok [song_abc, song_xyz] st1 = Some (Normal, st2) \<and>
      map song_views (songs_table st1) = [TextVal ''150'', TextVal ''N/A'', IntVal 0] \<and>
      map song_views (songs_table st2) = [TextVal ''150'', TextVal ''N/A'', IntVal 0] \<and>
      map song_likes (songs_table st2) = map song_likes (songs_table st1))"
proof -
  have "\<exists>st1. forSongs env_ok [song_abc, song_xyz] world0 = Some (Normal, st1) \<and>
      map song_views (songs_table st1) = [TextVal ''150'', TextVal ''N/A'', IntVal 0]"
    by (simp add: scenario_defs run_defs or_else_def opt_toString_def toString_def isSafeInteger_def MAX_SAFE_INTEGER_def decimal_def digits.simps
        digit_char_def)
  then obtain st1 where h1: "forSongs env_ok [song_abc, song_xyz] world0 = Some (Normal, st1)"
    and v1: "map song_views (songs_table st1) = [TextVal ''150'', TextVal ''N/A'', IntVal 0]"
    by (elim exE conjE)
  have "\<exists>st2. forSongs env_ok [song_abc, song_xyz] st1 = Some (Normal, st2)"
    by (simp add: env_ok_def song_abc_def song_xyz_def run_defs)
  then obtain st2 where h2: "forSongs env_ok [song_abc, song_xyz] st1 = Some (Normal, st2)"
    by blast
  from second_run_overwrites_same_values[OF steady_ok h1 h2] steady_ok h1 h2 v1
  show ?thesis by auto
qed



text \<open>
  C10. The cooldown is also slept after the last song: a loop that runs to its end over
  \<open>N\<close> songs has called the extractor \<open>N\<close> times and slept the cooldown \<open>N\<close> times, and
  the clock has advanced by at least \<open>N * COOLDOWN_MS\<close>, whatever the latencies of the
  collaborators (zero included). The last two events of the run are the log line of the
  last song and the cooldown after it, and the run ends no earlier than the cooldown
  after the time of that log line.
\<close>

theorem cooldown_after_last_song:
  assumes "forSongs e songs st = Some (Normal, st')"
  shows "calls (during st st') = length songs \<and>
         sleeps (during st st') = length songs \<and>
         now st + int (length songs) * int COOLDOWN_MS \<le> now st' \<and>
         (songs \<noteq> [] \<longrightarrow>
            last (trace st') = SleepFor COOLDOWN_MS \<and>
            (\<exists>pre t. during st st' =
                 pre @ [ConsoleLogUpdated t (youtubeid (last songs)), SleepFor COOLDOWN_MS] \<and>
               t + int COOLDOWN_MS \<le> now st'))"
proof -
  from forSongs_pacing[OF assms] obtain evs where
    t: "trace st' = trace st @ evs"
       "calls evs = sleeps evs + (if Normal = Normal then 0 else 1)"
       "Normal = Normal \<longrightarrow> calls evs = length songs"
       "now st + int (sleeps evs) * int COOLDOWN_MS \<le> now st'"
    by blast
  have d: "during st st' = evs" using t(1) by (rule during_append)
  from forSongs_shape[OF assms] obtain evs' where
    s: "trace st' = trace st @ evs'"
       "Normal = Normal \<longrightarrow> songs \<noteq> [] \<longrightarrow>
          (\<exists>pre t. evs' = pre @ [ConsoleLogUpdated t (youtubeid (last songs)), SleepFor COOLDOWN_MS] \<and>
             t + int COOLDOWN_MS \<le> now st')"
    by blast
  from s(1) t(1) have e: "evs' = evs" by simp
  have "last (trace st') = SleepFor COOLDOWN_MS \<and>
        (\<exists>pre t. evs = pre @ [ConsoleLogUpdated t (youtubeid (last songs)), SleepFor COOLDOWN_MS] \<and>
           t + int COOLDOWN_MS \<le> now st')" if "songs \<noteq> []"
  proof -
    from s(2) that e obtain pre t where
      p: "evs = pre @ [ConsoleLogUpdated t (youtubeid (last songs)), SleepFor COOLDOWN_MS]"
         "t + int COOLDOWN_MS \<le> now st'" by blast
    from p(1) t(1) have "last (trace st') = SleepFor COOLDOWN_MS" by simp
    with p show ?thesis by blast
  qed
  with t d show ?thesis by simp
qed

theorem cooldown_after_last_song_witness:
  "\<exists>st'. forSongs env_ok [song_abc, song_xyz] world0 = Some (Normal, st') \<and>
     sleeps (during world0 st') = 2 \<and> now world0 + 60000 \<le> now st' \<and>
     last (trace st') = SleepFor COOLDOWN_MS"
proof -
  from run_two obtain st' where h: "forSongs env_ok [song_abc, song_xyz] world0 = Some (Normal, st')"
    by blast
  from cooldown_after_last_song[OF h] h show ?thesis by (simp add: COOLDOWN_MS_def)
qed

end
